theory Spec2Isabelle
  imports Main "HOL-Library.Word"
begin

section \<open>The query example of zenoh-python: the reply handler\<close>

text \<open>
  The sources hold one script, \<^verbatim>\<open>examples/zenoh-net/zn_query.py\<close>. It parses its
  command line, opens a session, sends one query with the handler \<^verbatim>\<open>query_callback\<close>,
  sleeps for a second and closes the session. The only function the script defines is
  the handler:
  \<^verbatim>\<open>
  def query_callback(reply):
      time = '(not specified)' if reply.data.data_info is None else reply.data.data_info.timestamp.time
      print(">> [Reply handler] received ('{}': '{}') published at {}"
            .format(reply.data.res_name, reply.data.payload.decode("utf-8"), time))
  \<close>
  This theory embeds the handler. The session, the matching of resource names, the
  dispatch of queries and the delivery of replies belong to the \<^verbatim>\<open>zenoh\<close> library the
  script imports; none of that code is in the sources and nothing here models it.
\<close>

subsection \<open>Python values the handler reads\<close>

text \<open>
  A Python \<^verbatim>\<open>bytes\<close> object is a list of 8-bit words; a Python \<^verbatim>\<open>str\<close> is a list of
  Unicode code points. \<open>str_lit\<close> turns an ASCII literal of the script into a \<^verbatim>\<open>str\<close>.
\<close>

type_synonym byte = "8 word"
type_synonym codepoint = nat
type_synonym pystr = "codepoint list"

definition str_lit :: "string \<Rightarrow> pystr" where
  "str_lit s = map of_char s"

text \<open>
  Modelled from the spec: the classes of the reply (\<^verbatim>\<open>Reply\<close>, \<^verbatim>\<open>Sample\<close>, \<^verbatim>\<open>DataInfo\<close>,
  \<^verbatim>\<open>Timestamp\<close>) are declared by the library and are missing from the sources. The
  records hold the attributes the handler reads. The spec's data model gives a reply a
  source resource name, payload bytes and an "optional timestamp/data-info": the
  \<^verbatim>\<open>data_info\<close> of a sample may be \<^verbatim>\<open>None\<close>, and so may the \<^verbatim>\<open>timestamp\<close> of a
  \<^verbatim>\<open>data_info\<close> that is present. The type \<open>'t\<close> is the type of \<^verbatim>\<open>timestamp.time\<close>
  (a number in the library); the handler only formats it.
\<close>

record 't Timestamp =
  time :: 't

record 't DataInfo =
  timestamp :: "'t Timestamp option"

record 't Sample =
  res_name :: pystr
  payload :: "byte list"
  data_info :: "'t DataInfo option"

record 't Reply =
  data :: "'t Sample"

text \<open>
  The local variable \<^verbatim>\<open>time\<close> of the handler holds either a \<^verbatim>\<open>str\<close> or the value of
  \<^verbatim>\<open>timestamp.time\<close>: Python does not type it, the model does.
\<close>

datatype 't py_object = StrObj pystr | TimeObj 't

text \<open>
  The exceptions the handler can raise: \<^verbatim>\<open>AttributeError\<close> when an attribute is read
  from \<^verbatim>\<open>None\<close>, \<^verbatim>\<open>UnicodeDecodeError\<close> from \<^verbatim>\<open>decode\<close>, \<^verbatim>\<open>UnicodeEncodeError\<close> from
  \<^verbatim>\<open>print\<close>.
\<close>

datatype py_error = AttributeError | UnicodeDecodeError | UnicodeEncodeError

subsection \<open>The codec behind \<^verbatim>\<open>bytes.decode("utf-8")\<close>\<close>

text \<open>
  \<^verbatim>\<open>decode\<close> is called with the codec name only, so the error handler is \<^verbatim>\<open>strict\<close>:
  the first ill-formed sequence raises \<^verbatim>\<open>UnicodeDecodeError\<close>. The decoder accepts a lead
  byte, checks the range of the second byte (which excludes over-long forms, the
  surrogates and everything past U+10FFFF) and that every further byte is a
  continuation byte, and assembles the code point from the payload bits.
\<close>

definition cont :: "nat \<Rightarrow> bool" where
  "cont n = (0x80 \<le> n \<and> n < 0xC0)"

definition dec2 :: "nat \<Rightarrow> nat \<Rightarrow> codepoint option" where
  "dec2 n0 n1 =
     (if 0xC2 \<le> n0 \<and> cont n1 then Some (n0 mod 32 * 64 + n1 mod 64) else None)"

definition dec3 :: "nat \<Rightarrow> nat \<Rightarrow> nat \<Rightarrow> codepoint option" where
  "dec3 n0 n1 n2 =
     (if (if n0 = 0xE0 then 0xA0 \<le> n1 \<and> n1 < 0xC0
          else if n0 = 0xED then 0x80 \<le> n1 \<and> n1 < 0xA0
          else cont n1) \<and> cont n2
      then Some (n0 mod 16 * 4096 + n1 mod 64 * 64 + n2 mod 64) else None)"

definition dec4 :: "nat \<Rightarrow> nat \<Rightarrow> nat \<Rightarrow> nat \<Rightarrow> codepoint option" where
  "dec4 n0 n1 n2 n3 =
     (if n0 \<le> 0xF4 \<and>
         (if n0 = 0xF0 then 0x90 \<le> n1 \<and> n1 < 0xC0
          else if n0 = 0xF4 then 0x80 \<le> n1 \<and> n1 < 0x90
          else cont n1) \<and> cont n2 \<and> cont n3
      then Some (n0 mod 8 * 262144 + n1 mod 64 * 4096 + n2 mod 64 * 64 + n3 mod 64)
      else None)"

definition push :: "codepoint option \<Rightarrow> py_error + pystr \<Rightarrow> py_error + pystr" where
  "push c r =
     (case c of
        None \<Rightarrow> Inl UnicodeDecodeError
      | Some x \<Rightarrow> (case r of Inl e \<Rightarrow> Inl e | Inr xs \<Rightarrow> Inr (x # xs)))"

fun decode_units :: "nat list \<Rightarrow> py_error + pystr" where
  "decode_units [] = Inr []"
| "decode_units (n0 # ns) =
     (if n0 < 0x80 then push (Some n0) (decode_units ns)
      else if n0 < 0xC0 then Inl UnicodeDecodeError
      else if n0 < 0xE0 then
        (case ns of
           n1 # r \<Rightarrow> push (dec2 n0 n1) (decode_units r)
         | _ \<Rightarrow> Inl UnicodeDecodeError)
      else if n0 < 0xF0 then
        (case ns of
           n1 # n2 # r \<Rightarrow> push (dec3 n0 n1 n2) (decode_units r)
         | _ \<Rightarrow> Inl UnicodeDecodeError)
      else
        (case ns of
           n1 # n2 # n3 # r \<Rightarrow> push (dec4 n0 n1 n2 n3) (decode_units r)
         | _ \<Rightarrow> Inl UnicodeDecodeError))"

definition decode_utf8 :: "byte list \<Rightarrow> py_error + pystr" where
  "decode_utf8 bs = decode_units (map unat bs)"

text \<open>
  What "valid UTF-8" means is said without the decoder: a byte string is valid when it is
  the encoding of a list of Unicode scalar values (the code points below U+110000 that
  are not surrogates), each encoded in the shortest form.
\<close>

definition scalar :: "codepoint \<Rightarrow> bool" where
  "scalar c = (c < 0xD800 \<or> (0xE000 \<le> c \<and> c < 0x110000))"

definition encode_units :: "codepoint \<Rightarrow> nat list" where
  "encode_units c =
     (if c < 0x80 then [c]
      else if c < 0x800 then [0xC0 + c div 64, 0x80 + c mod 64]
      else if c < 0x10000 then
        [0xE0 + c div 4096, 0x80 + c div 64 mod 64, 0x80 + c mod 64]
      else
        [0xF0 + c div 262144, 0x80 + c div 4096 mod 64, 0x80 + c div 64 mod 64,
         0x80 + c mod 64])"

definition valid_utf8 :: "byte list \<Rightarrow> bool" where
  "valid_utf8 bs =
     (\<exists>cs. list_all scalar cs \<and> map unat bs = concat (map encode_units cs))"

subsection \<open>The handler\<close>

text \<open>
  Line 55: the value of the local variable \<^verbatim>\<open>time\<close>. The conditional tests
  \<^verbatim>\<open>data_info\<close> only; reading \<^verbatim>\<open>.time\<close> from a \<^verbatim>\<open>timestamp\<close> that is \<^verbatim>\<open>None\<close>
  raises \<^verbatim>\<open>AttributeError\<close>.
\<close>

definition not_specified :: pystr where
  "not_specified = str_lit ''(not specified)''"

definition callback_time :: "'t Reply \<Rightarrow> py_error + 't py_object" where
  "callback_time reply =
     (case data_info (data reply) of
        None \<Rightarrow> Inr (StrObj not_specified)
      | Some info \<Rightarrow>
          (case timestamp info of
             None \<Rightarrow> Inl AttributeError
           | Some ts \<Rightarrow> Inr (TimeObj (time ts))))"

text \<open>
  The replies on which line 55 has a value: no \<^verbatim>\<open>data_info\<close>, or one with a timestamp.
\<close>

definition time_readable :: "'t Reply \<Rightarrow> bool" where
  "time_readable reply =
     (case data_info (data reply) of
        None \<Rightarrow> True
      | Some info \<Rightarrow> (case timestamp info of None \<Rightarrow> False | Some ts \<Rightarrow> True))"

text \<open>
  A replacement field \<^verbatim>\<open>{}\<close> of \<^verbatim>\<open>str.format\<close> is filled with \<^verbatim>\<open>str\<close> of its argument:
  a \<^verbatim>\<open>str\<close> stands for itself, and \<open>str_of\<close> is Python's \<^verbatim>\<open>str\<close> on the type of
  \<^verbatim>\<open>timestamp.time\<close>.
\<close>

definition format_field :: "('t \<Rightarrow> pystr) \<Rightarrow> 't py_object \<Rightarrow> pystr" where
  "format_field str_of v = (case v of StrObj s \<Rightarrow> s | TimeObj t \<Rightarrow> str_of t)"

text \<open>
  The format string of lines 56--57 with its three fields filled. Code point 39 is
  the single quote of the format string.
\<close>

definition format_line :: "pystr \<Rightarrow> pystr \<Rightarrow> pystr \<Rightarrow> pystr" where
  "format_line name text published =
     str_lit ''>> [Reply handler] received ('' @ [39] @ name @ [39] @ str_lit '': '' @ [39]
       @ text @ [39] @ str_lit '') published at '' @ published"

text \<open>
  The console is explicit state: the text written so far. \<^verbatim>\<open>sys.stdout\<close> encodes what
  is written to it, and with the error handler \<^verbatim>\<open>strict\<close> a \<^verbatim>\<open>write\<close> of a text
  holding a code point its encoding cannot represent raises \<^verbatim>\<open>UnicodeEncodeError\<close> and
  writes nothing. The encoding is the environment's choice, so the set of code points it
  can represent is the parameter \<open>enc\<close>. \<^verbatim>\<open>print\<close> writes its argument and then the
  line end (code point 10), in two writes.
  The stream is taken to be open and writable: only the encoding makes a write fail.
\<close>

definition stdout_write :: "(codepoint \<Rightarrow> bool) \<Rightarrow> pystr \<Rightarrow> pystr \<Rightarrow> py_error + pystr" where
  "stdout_write enc console s =
     (if list_all enc s then Inr (console @ s) else Inl UnicodeEncodeError)"

definition py_print ::
    "(codepoint \<Rightarrow> bool) \<Rightarrow> pystr \<Rightarrow> pystr \<Rightarrow> (py_error + unit) \<times> pystr" where
  "py_print enc console s =
     (case stdout_write enc console s of
        Inl e \<Rightarrow> (Inl e, console)
      | Inr written \<Rightarrow>
          (case stdout_write enc written [10] of
             Inl e \<Rightarrow> (Inl e, written)
           | Inr ended \<Rightarrow> (Inr (), ended)))"

text \<open>
  The handler. It returns what it raised, or \<^verbatim>\<open>None\<close>, with the console after the call.
  Line 55 runs first; then the arguments of \<^verbatim>\<open>format\<close> are evaluated, the payload
  decoded among them; then the line is formatted and printed. An exception of line 55 or
  of \<^verbatim>\<open>decode\<close> is raised before \<^verbatim>\<open>print\<close> is called and leaves the console as it was.
\<close>

definition query_callback ::
    "(codepoint \<Rightarrow> bool) \<Rightarrow> ('t \<Rightarrow> pystr) \<Rightarrow> 't Reply \<Rightarrow> pystr \<Rightarrow>
       (py_error + unit) \<times> pystr" where
  "query_callback enc str_of reply console =
     (case callback_time reply of
        Inl e \<Rightarrow> (Inl e, console)
      | Inr time_value \<Rightarrow>
          (case decode_utf8 (payload (data reply)) of
             Inl e \<Rightarrow> (Inl e, console)
           | Inr text \<Rightarrow>
               py_print enc console
                 (format_line (res_name (data reply)) text
                    (format_field str_of time_value))))"

subsection \<open>The decoder accepts exactly the valid byte strings\<close>

text \<open>
  Arithmetic of the code units: a unit in a block of \<open>w\<close> values that starts at a
  multiple of \<open>w\<close> is the start plus its payload bits.
\<close>

lemma split_unit:
  fixes n :: nat
  assumes "lo \<le> n" "n < lo + w" "0 < w" "w dvd lo"
  shows "\<exists>a. n = lo + a \<and> a < w \<and> n mod w = a"
proof -
  from assms(1) obtain a where a: "n = lo + a"
    using le_Suc_ex by blast
  with assms(2) have "a < w" by simp
  moreover from assms(4) have "(lo + a) mod w = a mod w"
    by (metis mod_add_left_eq dvd_eq_mod_eq_0 add_0)
  ultimately show ?thesis using a by auto
qed

lemma div_mod_low:
  fixes a b m :: nat
  assumes "b < m"
  shows "(a * m + b) div m = a" "(a * m + b) mod m = b"
  using assms by simp_all

lemma dec2_Some:
  assumes "dec2 n0 n1 = Some c" "n0 < 0xE0"
  shows "scalar c \<and> encode_units c = [n0, n1]"
proof -
  from assms have r: "0xC2 \<le> n0" "0x80 \<le> n1" "n1 < 0xC0"
    and c: "c = n0 mod 32 * 64 + n1 mod 64"
    by (auto simp: dec2_def cont_def split: if_splits)
  obtain a where a: "n0 = 0xC0 + a" "a < 32" "n0 mod 32 = a"
    using split_unit [of "0xC0" n0 32] r assms(2) by auto
  obtain b where b: "n1 = 0x80 + b" "b < 64" "n1 mod 64 = b"
    using split_unit [of "0x80" n1 64] r by auto
  have c': "c = a * 64 + b" using c a b by simp
  have "2 \<le> a" using a r by simp
  then have "0x80 \<le> c" "c < 0x800" using c' a b by simp_all
  moreover have "c div 64 = a" "c mod 64 = b"
    using div_mod_low [OF b(2), of a] c' by simp_all
  ultimately show ?thesis
    using a b by (simp add: scalar_def encode_units_def)
qed

lemma dec3_Some:
  assumes "dec3 n0 n1 n2 = Some c" "0xE0 \<le> n0" "n0 < 0xF0"
  shows "scalar c \<and> encode_units c = [n0, n1, n2]"
proof -
  from assms(1) have r: "0x80 \<le> n1" "n1 < 0xC0" "0x80 \<le> n2" "n2 < 0xC0"
      "n0 = 0xE0 \<Longrightarrow> 0xA0 \<le> n1" "n0 = 0xED \<Longrightarrow> n1 < 0xA0"
    and c: "c = n0 mod 16 * 4096 + n1 mod 64 * 64 + n2 mod 64"
    by (auto simp: dec3_def cont_def split: if_splits)
  obtain a where a: "n0 = 0xE0 + a" "a < 16" "n0 mod 16 = a"
    using split_unit [of "0xE0" n0 16] assms(2,3) by auto
  obtain b where b: "n1 = 0x80 + b" "b < 64" "n1 mod 64 = b"
    using split_unit [of "0x80" n1 64] r by auto
  obtain d where d: "n2 = 0x80 + d" "d < 64" "n2 mod 64 = d"
    using split_unit [of "0x80" n2 64] r by auto
  have c1: "c = (a * 64 + b) * 64 + d" using c a b d by simp
  have c2: "c = a * 4096 + (b * 64 + d)" using c1 by simp
  have lo: "b * 64 + d < 4096" using b d by simp
  have "a = 0 \<Longrightarrow> 32 \<le> b" using r(5) a b by simp
  then have "0x800 \<le> c" using c2 a b d by (cases "a = 0") simp_all
  moreover have "c < 0x10000" using c2 a lo by simp
  moreover have "a = 13 \<Longrightarrow> b < 32" using r(6) a b by simp
  then have "c < 0xD800 \<or> 0xE000 \<le> c"
    using c2 a b d by (cases "a = 13"; cases "a < 13") simp_all
  moreover have "c div 4096 = a"
    using div_mod_low(1) [OF lo, of a] c2 by simp
  moreover have "c div 64 = a * 64 + b" "c mod 64 = d"
    using div_mod_low [OF d(2), of "a * 64 + b"] c1 by simp_all
  moreover have "(a * 64 + b) mod 64 = b"
    using div_mod_low(2) [OF b(2), of a] by simp
  ultimately show ?thesis
    using a b d by (simp add: scalar_def encode_units_def)
qed

lemma dec4_Some:
  assumes "dec4 n0 n1 n2 n3 = Some c" "0xF0 \<le> n0"
  shows "scalar c \<and> encode_units c = [n0, n1, n2, n3]"
proof -
  from assms(1) have r: "n0 \<le> 0xF4" "0x80 \<le> n1" "n1 < 0xC0" "0x80 \<le> n2" "n2 < 0xC0"
      "0x80 \<le> n3" "n3 < 0xC0"
      "n0 = 0xF0 \<Longrightarrow> 0x90 \<le> n1" "n0 = 0xF4 \<Longrightarrow> n1 < 0x90"
    and c: "c = n0 mod 8 * 262144 + n1 mod 64 * 4096 + n2 mod 64 * 64 + n3 mod 64"
    by (auto simp: dec4_def cont_def split: if_splits)
  obtain a where a: "n0 = 0xF0 + a" "a < 8" "n0 mod 8 = a"
    using split_unit [of "0xF0" n0 8] assms(2) r(1) by auto
  obtain b where b: "n1 = 0x80 + b" "b < 64" "n1 mod 64 = b"
    using split_unit [of "0x80" n1 64] r by auto
  obtain d where d: "n2 = 0x80 + d" "d < 64" "n2 mod 64 = d"
    using split_unit [of "0x80" n2 64] r by auto
  obtain e where e: "n3 = 0x80 + e" "e < 64" "n3 mod 64 = e"
    using split_unit [of "0x80" n3 64] r by auto
  have a4: "a \<le> 4" using a r(1) by simp
  have c1: "c = ((a * 64 + b) * 64 + d) * 64 + e" using c a b d e by simp
  have c2: "c = (a * 64 + b) * 4096 + (d * 64 + e)" using c1 by simp
  have c3: "c = a * 262144 + (b * 4096 + d * 64 + e)" using c1 by simp
  have lo2: "d * 64 + e < 4096" using d e by simp
  have lo3: "b * 4096 + d * 64 + e < 262144" using b d e by simp
  have "a = 0 \<Longrightarrow> 16 \<le> b" using r(8) a b by simp
  then have "0x10000 \<le> c" using c3 a b d e by (cases "a = 0") simp_all
  moreover have "a = 4 \<Longrightarrow> b < 16" using r(9) a b by simp
  then have "c < 0x110000" using c3 a4 b d e by (cases "a = 4") simp_all
  moreover have "c div 262144 = a"
    using div_mod_low(1) [OF lo3, of a] c3 by simp
  moreover have "c div 4096 = a * 64 + b"
    using div_mod_low(1) [OF lo2, of "a * 64 + b"] c2 by simp
  moreover have "c div 64 = (a * 64 + b) * 64 + d" "c mod 64 = e"
    using div_mod_low [OF e(2), of "(a * 64 + b) * 64 + d"] c1 by simp_all
  moreover have "(a * 64 + b) mod 64 = b"
    using div_mod_low(2) [OF b(2), of a] by simp
  moreover have "((a * 64 + b) * 64 + d) mod 64 = d"
    using div_mod_low(2) [OF d(2), of "a * 64 + b"] by simp
  ultimately show ?thesis
    using a b d e by (simp add: scalar_def encode_units_def)
qed

lemma unit_mod:
  fixes a :: nat
  assumes "a < w" "w dvd lo"
  shows "(lo + a) mod w = a"
proof -
  from assms(2) have "(lo + a) mod w = a mod w"
    by (metis mod_add_left_eq dvd_eq_mod_eq_0 add_0)
  with assms(1) show ?thesis by simp
qed

lemma div_bounds:
  fixes c :: nat
  assumes "lo * m \<le> c" "c < hi * m" "0 < m"
  shows "lo \<le> c div m" "c div m < hi"
proof -
  from assms(1,3) show "lo \<le> c div m"
    using div_le_mono [of "lo * m" c m] by simp
  from assms(2) show "c div m < hi"
    by (simp add: less_mult_imp_div_less)
qed

lemma dec2_encode:
  assumes "0x80 \<le> c" "c < 0x800"
  shows "dec2 (0xC0 + c div 64) (0x80 + c mod 64) = Some c"
    and "0xC0 \<le> 0xC0 + c div 64" and "0xC0 + c div 64 < 0xE0"
proof -
  have a: "2 \<le> c div 64" "c div 64 < 32"
    using div_bounds [of 2 64 c 32] assms by simp_all
  have b: "c mod 64 < 64" by simp
  have "(0xC0 + c div 64) mod 32 = c div 64" "(0x80 + c mod 64) mod 64 = c mod 64"
    using unit_mod [OF a(2), of "0xC0"] unit_mod [OF b, of "0x80"] by simp_all
  then show "dec2 (0xC0 + c div 64) (0x80 + c mod 64) = Some c"
    using a by (simp add: dec2_def cont_def)
  show "0xC0 \<le> 0xC0 + c div 64" by simp
  show "0xC0 + c div 64 < 0xE0" using a by simp
qed

lemma dec3_encode:
  assumes "0x800 \<le> c" "c < 0x10000" "c < 0xD800 \<or> 0xE000 \<le> c"
  shows "dec3 (0xE0 + c div 4096) (0x80 + c div 64 mod 64) (0x80 + c mod 64) = Some c"
    and "0xE0 \<le> 0xE0 + c div 4096" and "0xE0 + c div 4096 < 0xF0"
proof -
  define a where "a = c div 4096"
  define b where "b = c div 64 mod 64"
  define d where "d = c mod 64"
  have a: "a < 16" unfolding a_def
    using div_bounds(2) [of 0 4096 c 16] assms by simp
  have b: "b < 64" and d: "d < 64" by (simp_all add: b_def d_def)
  have q: "c div 64 div 64 = a" by (simp add: a_def div_mult2_eq [symmetric])
  have "c = c div 64 * 64 + d" by (simp add: d_def)
  also have "c div 64 = a * 64 + b"
    using div_mult_mod_eq [of "c div 64" 64] q by (simp add: b_def)
  finally have c: "c = (a * 64 + b) * 64 + d" .
  have c2: "c = a * 4096 + b * 64 + d" using c by simp
  have m: "(0xE0 + a) mod 16 = a" "(0x80 + b) mod 64 = b" "(0x80 + d) mod 64 = d"
    using unit_mod [OF a, of "0xE0"] unit_mod [OF b, of "0x80"] unit_mod [OF d, of "0x80"]
    by simp_all
  have e0: "a = 0 \<Longrightarrow> 32 \<le> b"
    using assms(1) c2 d by simp
  have ed: "a = 13 \<Longrightarrow> b < 32"
    using assms(3) c2 b d by auto
  have "dec3 (0xE0 + a) (0x80 + b) (0x80 + d) = Some c"
    using m b d e0 ed c2 by (simp add: dec3_def cont_def)
  then show "dec3 (0xE0 + c div 4096) (0x80 + c div 64 mod 64) (0x80 + c mod 64) = Some c"
    by (simp add: a_def b_def d_def)
  show "0xE0 \<le> 0xE0 + c div 4096" by simp
  show "0xE0 + c div 4096 < 0xF0" using a by (simp add: a_def)
qed

lemma dec4_encode:
  assumes "0x10000 \<le> c" "c < 0x110000"
  shows "dec4 (0xF0 + c div 262144) (0x80 + c div 4096 mod 64) (0x80 + c div 64 mod 64)
           (0x80 + c mod 64) = Some c"
    and "0xF0 \<le> 0xF0 + c div 262144"
proof -
  define a where "a = c div 262144"
  define b where "b = c div 4096 mod 64"
  define d where "d = c div 64 mod 64"
  define e where "e = c mod 64"
  have a: "a \<le> 4" unfolding a_def
    using div_bounds(2) [of 0 262144 c 5] assms by simp
  have b: "b < 64" and d: "d < 64" and e: "e < 64" by (simp_all add: b_def d_def e_def)
  have q1: "c div 64 div 64 = c div 4096" by (simp add: div_mult2_eq [symmetric])
  have q2: "c div 4096 div 64 = a" by (simp add: a_def div_mult2_eq [symmetric])
  have "c = c div 64 * 64 + e" by (simp add: e_def)
  also have "c div 64 = c div 4096 * 64 + d"
    using div_mult_mod_eq [of "c div 64" 64] q1 by (simp add: d_def)
  also have "c div 4096 = a * 64 + b"
    using div_mult_mod_eq [of "c div 4096" 64] q2 by (simp add: b_def)
  finally have c: "c = ((a * 64 + b) * 64 + d) * 64 + e" .
  have c2: "c = a * 262144 + b * 4096 + d * 64 + e" using c by simp
  have a8: "a < 8" using a by simp
  have m: "(0xF0 + a) mod 8 = a" "(0x80 + b) mod 64 = b" "(0x80 + d) mod 64 = d"
      "(0x80 + e) mod 64 = e"
    using unit_mod [OF a8, of "0xF0"] unit_mod [OF b, of "0x80"] unit_mod [OF d, of "0x80"]
      unit_mod [OF e, of "0x80"]
    by simp_all
  have e0: "a = 0 \<Longrightarrow> 16 \<le> b"
    using assms(1) c2 d e by simp
  have e4: "a = 4 \<Longrightarrow> b < 16"
    using assms(2) c2 by simp
  have "dec4 (0xF0 + a) (0x80 + b) (0x80 + d) (0x80 + e) = Some c"
    using m a b d e e0 e4 c2 by (simp add: dec4_def cont_def)
  then show "dec4 (0xF0 + c div 262144) (0x80 + c div 4096 mod 64) (0x80 + c div 64 mod 64)
           (0x80 + c mod 64) = Some c"
    by (simp add: a_def b_def d_def e_def)
  show "0xF0 \<le> 0xF0 + c div 262144" by simp
qed

lemma push_Inr:
  "push c r = Inr xs \<longleftrightarrow> (\<exists>x ys. c = Some x \<and> r = Inr ys \<and> xs = x # ys)"
  by (auto simp: push_def split: option.splits sum.splits)

lemma decode_encode:
  assumes "scalar c"
  shows "decode_units (encode_units c @ ns) = push (Some c) (decode_units ns)"
proof -
  consider "c < 0x80" | "0x80 \<le> c" "c < 0x800" | "0x800 \<le> c" "c < 0x10000"
    | "0x10000 \<le> c"
    by linarith
  then show ?thesis
  proof cases
    case 1
    then show ?thesis by (simp add: encode_units_def)
  next
    case 2
    with dec2_encode [of c] show ?thesis by (simp add: encode_units_def)
  next
    case 3
    moreover from assms have "c < 0xD800 \<or> 0xE000 \<le> c" by (auto simp: scalar_def)
    ultimately show ?thesis
      using dec3_encode [of c] by (simp add: encode_units_def)
  next
    case 4
    moreover from assms 4 have "c < 0x110000" by (auto simp: scalar_def)
    ultimately show ?thesis
      using dec4_encode [of c] by (simp add: encode_units_def)
  qed
qed

lemma decode_concat:
  "list_all scalar cs \<Longrightarrow> decode_units (concat (map encode_units cs)) = Inr cs"
  by (induction cs) (simp_all add: decode_encode push_def)

lemma decode_sound:
  "decode_units ns = Inr cs \<Longrightarrow> list_all scalar cs \<and> ns = concat (map encode_units cs)"
proof (induction ns arbitrary: cs rule: decode_units.induct)
  case 1
  then show ?case by simp
next
  case (2 n0 ns)
  consider "n0 < 0x80" | "0x80 \<le> n0" "n0 < 0xC0" | "0xC0 \<le> n0" "n0 < 0xE0"
    | "0xE0 \<le> n0" "n0 < 0xF0" | "0xF0 \<le> n0"
    by linarith
  then show ?case
  proof cases
    case 1
    with "2.prems" obtain ys where ys: "decode_units ns = Inr ys" "cs = n0 # ys"
      by (auto simp: push_Inr)
    with "2.IH"(1) [OF 1 ys(1)] 1 show ?thesis
      by (simp add: scalar_def encode_units_def)
  next
    case 2
    with "2.prems" show ?thesis by simp
  next
    case 3
    with "2.prems" obtain n1 r c ys where p: "ns = n1 # r" "dec2 n0 n1 = Some c"
        "decode_units r = Inr ys" "cs = c # ys"
      by (auto simp: push_Inr split: list.splits)
    from 3 have g: "\<not> n0 < 0x80" "\<not> n0 < 0xC0" "n0 < 0xE0" by simp_all
    from "2.IH"(2) [OF g p(1) p(3)] dec2_Some [OF p(2) g(3)] p show ?thesis
      by simp
  next
    case 4
    with "2.prems" obtain n1 n2 r c ys where p: "ns = n1 # n2 # r" "dec3 n0 n1 n2 = Some c"
        "decode_units r = Inr ys" "cs = c # ys"
      by (auto simp: push_Inr split: list.splits)
    from 4 have g: "\<not> n0 < 0x80" "\<not> n0 < 0xC0" "\<not> n0 < 0xE0" "n0 < 0xF0" by simp_all
    from "2.IH"(3) [OF g p(1) _ p(3)] dec3_Some [OF p(2) 4] p show ?thesis
      by simp
  next
    case 5
    with "2.prems" obtain n1 n2 n3 r c ys where p: "ns = n1 # n2 # n3 # r"
        "dec4 n0 n1 n2 n3 = Some c" "decode_units r = Inr ys" "cs = c # ys"
      by (auto simp: push_Inr split: list.splits)
    from 5 have g: "\<not> n0 < 0x80" "\<not> n0 < 0xC0" "\<not> n0 < 0xE0" "\<not> n0 < 0xF0" by simp_all
    from "2.IH"(4) [OF g p(1) _ _ p(3)] dec4_Some [OF p(2) 5] p show ?thesis
      by simp
  qed
qed

lemma valid_utf8_decode: "valid_utf8 bs \<longleftrightarrow> (\<exists>cs. decode_utf8 bs = Inr cs)"
  unfolding valid_utf8_def decode_utf8_def
  using decode_concat decode_sound by metis

lemma push_Inl: "push c r = Inl e \<Longrightarrow> (\<forall>e'. r = Inl e' \<longrightarrow> e' = UnicodeDecodeError) \<Longrightarrow>
    e = UnicodeDecodeError"
  by (auto simp: push_def split: option.splits sum.splits)

lemma decode_units_error: "decode_units ns = Inl e \<Longrightarrow> e = UnicodeDecodeError"
proof (induction ns arbitrary: e rule: decode_units.induct)
  case 1
  then show ?case by simp
next
  case (2 n0 ns)
  show ?case
  proof (rule ccontr)
    assume ne: "e \<noteq> UnicodeDecodeError"
    have p: "\<And>c r. push c r = Inl e \<Longrightarrow> \<exists>e'. r = Inl e' \<and> e' \<noteq> UnicodeDecodeError"
      using ne push_Inl by blast
    consider "n0 < 0x80" | "0x80 \<le> n0" "n0 < 0xC0" | "0xC0 \<le> n0" "n0 < 0xE0"
      | "0xE0 \<le> n0" "n0 < 0xF0" | "0xF0 \<le> n0"
      by linarith
    then show False
    proof cases
      case 1
      with "2.prems" have "push (Some n0) (decode_units ns) = Inl e" by simp
      from p [OF this] "2.IH"(1) [OF 1] show False by blast
    next
      case 2
      with "2.prems" ne show False by simp
    next
      case 3
      then have g: "\<not> n0 < 0x80" "\<not> n0 < 0xC0" "n0 < 0xE0" by simp_all
      show False
      proof (cases ns)
        case Nil
        with "2.prems" g ne show False by simp
      next
        case (Cons n1 r)
        with "2.prems" g have "push (dec2 n0 n1) (decode_units r) = Inl e" by simp
        from p [OF this] "2.IH"(2) [OF g Cons] show False by blast
      qed
    next
      case 4
      then have g: "\<not> n0 < 0x80" "\<not> n0 < 0xC0" "\<not> n0 < 0xE0" "n0 < 0xF0" by simp_all
      show False
      proof (cases ns)
        case Nil
        with "2.prems" g ne show False by simp
      next
        case c1: (Cons n1 r1)
        show False
        proof (cases r1)
          case Nil
          with "2.prems" g ne c1 show False by simp
        next
          case c2: (Cons n2 r)
          with "2.prems" g c1 have "push (dec3 n0 n1 n2) (decode_units r) = Inl e" by simp
          from p [OF this] "2.IH"(3) [OF g c1 c2] show False by blast
        qed
      qed
    next
      case 5
      then have g: "\<not> n0 < 0x80" "\<not> n0 < 0xC0" "\<not> n0 < 0xE0" "\<not> n0 < 0xF0" by simp_all
      show False
      proof (cases ns)
        case Nil
        with "2.prems" g ne show False by simp
      next
        case c1: (Cons n1 r1)
        show False
        proof (cases r1)
          case Nil
          with "2.prems" g ne c1 show False by simp
        next
          case c2: (Cons n2 r2)
          show False
          proof (cases r2)
            case Nil
            with "2.prems" g ne c1 c2 show False by simp
          next
            case c3: (Cons n3 r)
            with "2.prems" g c1 c2
            have "push (dec4 n0 n1 n2 n3) (decode_units r) = Inl e" by simp
            from p [OF this] "2.IH"(4) [OF g c1 c2 c3] show False by blast
          qed
        qed
      qed
    qed
  qed
qed

lemma invalid_utf8_decode: "\<not> valid_utf8 bs \<longleftrightarrow> decode_utf8 bs = Inl UnicodeDecodeError"
proof -
  have "(\<forall>cs. decode_utf8 bs \<noteq> Inr cs) \<longleftrightarrow> decode_utf8 bs = Inl UnicodeDecodeError"
    by (cases "decode_utf8 bs") (auto simp: decode_utf8_def dest: decode_units_error)
  then show ?thesis by (simp add: valid_utf8_decode)
qed

subsection \<open>Printing, and the replies on which line 55 has a value\<close>

lemma py_print_cases:
  "py_print enc console s =
     (if list_all enc s then
        (if enc 10 then (Inr (), console @ s @ [10])
         else (Inl UnicodeEncodeError, console @ s))
      else (Inl UnicodeEncodeError, console))"
  by (simp add: py_print_def stdout_write_def)

lemma callback_time_readable:
  "time_readable reply \<longleftrightarrow> (\<exists>v. callback_time reply = Inr v)"
  by (simp add: time_readable_def callback_time_def split: option.splits)

section \<open>What the handler prints\<close>




section \<open>The payload is decoded unconditionally\<close>

text \<open>
  Claim C10, as amended. On every reply for which line 55 has a value (no \<^verbatim>\<open>data_info\<close>,
  or one with a timestamp), \<^verbatim>\<open>query_callback\<close> decodes the payload as UTF-8 with no
  guard: if the payload is not valid UTF-8 the call raises \<^verbatim>\<open>UnicodeDecodeError\<close> and
  prints nothing (the console is as it was); if it is valid UTF-8 and the console can
  encode the formatted line, the call returns normally, having added that line to the
  console; if the console cannot encode the line, \<^verbatim>\<open>print\<close> raises
  \<^verbatim>\<open>UnicodeEncodeError\<close> and nothing is added.
\<close>

theorem query_callback_decodes_unconditionally:
  assumes "time_readable reply"
  shows "(\<not> valid_utf8 (payload (data reply)) \<longrightarrow>
      query_callback enc str_of reply console = (Inl UnicodeDecodeError, console)) \<and>
   (valid_utf8 (payload (data reply)) \<longrightarrow>
      (\<exists>text v. decode_utf8 (payload (data reply)) = Inr text \<and> callback_time reply = Inr v \<and>
         (list_all enc (format_line (res_name (data reply)) text (format_field str_of v)) \<and>
            enc 10 \<longrightarrow>
          query_callback enc str_of reply console =
            (Inr (),
             console @ format_line (res_name (data reply)) text (format_field str_of v)
               @ [10])) \<and>
         (\<not> list_all enc (format_line (res_name (data reply)) text (format_field str_of v))
            \<longrightarrow>
          query_callback enc str_of reply console = (Inl UnicodeEncodeError, console))))"
proof -
  from assms obtain v where v: "callback_time reply = Inr v"
    by (auto simp: callback_time_readable)
  show ?thesis
  proof (intro conjI impI)
    assume "\<not> valid_utf8 (payload (data reply))"
    then have "decode_utf8 (payload (data reply)) = Inl UnicodeDecodeError"
      by (simp add: invalid_utf8_decode)
    with v show "query_callback enc str_of reply console = (Inl UnicodeDecodeError, console)"
      by (simp add: query_callback_def)
  next
    assume "valid_utf8 (payload (data reply))"
    then obtain s where s: "decode_utf8 (payload (data reply)) = Inr s"
      by (auto simp: valid_utf8_decode)
    have "query_callback enc str_of reply console =
        py_print enc console (format_line (res_name (data reply)) s (format_field str_of v))"
      using v s by (simp add: query_callback_def)
    then show "\<exists>text v. decode_utf8 (payload (data reply)) = Inr text \<and>
         callback_time reply = Inr v \<and>
         (list_all enc (format_line (res_name (data reply)) text (format_field str_of v)) \<and>
            enc 10 \<longrightarrow>
          query_callback enc str_of reply console =
            (Inr (),
             console @ format_line (res_name (data reply)) text (format_field str_of v)
               @ [10])) \<and>
         (\<not> list_all enc (format_line (res_name (data reply)) text (format_field str_of v))
            \<longrightarrow>
          query_callback enc str_of reply console = (Inl UnicodeEncodeError, console))"
      using v s by (simp add: py_print_cases)
  qed
qed

text \<open>
  On a console that encodes the code points below 256: a payload with the stray byte
  \<^verbatim>\<open>0xFF\<close> raises and leaves the console alone, and the payload \<^verbatim>\<open>68 C3 A9\<close> (the
  letter h and U+00E9) is printed.
\<close>

theorem query_callback_decodes_unconditionally_witness:
  "time_readable \<lparr>data = \<lparr>res_name = str_lit ''/demo/example/a'', payload = [0x68, 0xFF],
       data_info = Some \<lparr>timestamp = Some \<lparr>time = (7 :: nat)\<rparr>\<rparr>\<rparr>\<rparr> \<and>
   \<not> valid_utf8 [0x68, 0xFF] \<and>
   query_callback (\<lambda>c. c < 256) (\<lambda>t :: nat. [48 + t])
       \<lparr>data = \<lparr>res_name = str_lit ''/demo/example/a'', payload = [0x68, 0xFF],
          data_info = Some \<lparr>timestamp = Some \<lparr>time = 7\<rparr>\<rparr>\<rparr>\<rparr> (str_lit ''Sending Query'') =
     (Inl UnicodeDecodeError, str_lit ''Sending Query'') \<and>
   valid_utf8 [0x68, 0xC3, 0xA9] \<and>
   query_callback (\<lambda>c. c < 256) (\<lambda>t :: nat. [48 + t])
       \<lparr>data = \<lparr>res_name = str_lit ''/demo/example/a'', payload = [0x68, 0xC3, 0xA9],
          data_info = Some \<lparr>timestamp = Some \<lparr>time = 7\<rparr>\<rparr>\<rparr>\<rparr> [] =
     (Inr (), str_lit ''>> [Reply handler] received ('' @ [39] @ str_lit ''/demo/example/a''
        @ [39] @ str_lit '': '' @ [39] @ [0x68, 0xE9] @ [39]
        @ str_lit '') published at 7'' @ [10])"
proof -
  let ?bad = "\<lparr>data = \<lparr>res_name = str_lit ''/demo/example/a'', payload = [0x68, 0xFF :: byte],
          data_info = Some \<lparr>timestamp = Some \<lparr>time = (7 :: nat)\<rparr>\<rparr>\<rparr>\<rparr>"
  let ?good = "\<lparr>data = \<lparr>res_name = str_lit ''/demo/example/a'',
          payload = [0x68, 0xC3, 0xA9 :: byte],
          data_info = Some \<lparr>timestamp = Some \<lparr>time = (7 :: nat)\<rparr>\<rparr>\<rparr>\<rparr>"
  let ?enc = "\<lambda>c :: nat. c < 256"
  let ?str = "\<lambda>t :: nat. [48 + t]"
  have rb: "time_readable ?bad" and rg: "time_readable ?good"
    by (simp_all add: time_readable_def)
  have bad: "\<not> valid_utf8 [0x68, 0xFF]"
    by (simp add: invalid_utf8_decode decode_utf8_def push_def)
  have d: "decode_utf8 [0x68, 0xC3, 0xA9] = Inr [0x68, 0xE9]"
    by (simp add: decode_utf8_def push_def dec2_def cont_def)
  then have good: "valid_utf8 [0x68, 0xC3, 0xA9]"
    by (simp add: valid_utf8_decode)
  have t: "callback_time ?good = Inr (TimeObj 7)"
    by (simp add: callback_time_def)
  have e: "list_all ?enc (format_line (str_lit ''/demo/example/a'') [0x68, 0xE9]
      (format_field ?str (TimeObj 7)))"
    by (simp add: format_line_def format_field_def str_lit_def)
  have p1: "query_callback ?enc ?str ?bad (str_lit ''Sending Query'') =
      (Inl UnicodeDecodeError, str_lit ''Sending Query'')"
    using query_callback_decodes_unconditionally
        [OF rb, of ?enc ?str "str_lit ''Sending Query''"] bad
    by simp
  have p2: "query_callback ?enc ?str ?good [] =
      (Inr (), [] @ format_line (str_lit ''/demo/example/a'') [0x68, 0xE9]
         (format_field ?str (TimeObj 7)) @ [10])"
    using query_callback_decodes_unconditionally [OF rg, of ?enc ?str "[]"] good d t e
    by simp
  show ?thesis
    using rb bad p1 good p2
    by (simp add: format_line_def format_field_def str_lit_def)
qed

text \<open>
  The claim as first stated fails in both halves: the valid payload \<^verbatim>\<open>68 C3 A9\<close> is
  not printed on an ASCII console (\<^verbatim>\<open>print\<close> raises \<^verbatim>\<open>UnicodeEncodeError\<close>), and the
  invalid payload \<^verbatim>\<open>68 FF\<close> of a reply whose \<^verbatim>\<open>data_info\<close> has no timestamp raises
  \<^verbatim>\<open>AttributeError\<close>, not a decoding error, since line 55 runs before the decoding.
\<close>

theorem query_callback_decodes_unconditionally_counterexample:
  "valid_utf8 [0x68, 0xC3, 0xA9] \<and>
   query_callback (\<lambda>c. c < 128) (\<lambda>t :: nat. [48 + t])
       \<lparr>data = \<lparr>res_name = str_lit ''/demo/example/a'', payload = [0x68, 0xC3, 0xA9],
          data_info = None\<rparr>\<rparr> (str_lit ''Sending Query'') =
     (Inl UnicodeEncodeError, str_lit ''Sending Query'') \<and>
   \<not> valid_utf8 [0x68, 0xFF] \<and>
   query_callback (\<lambda>c. True) (\<lambda>t :: nat. [48 + t])
       \<lparr>data = \<lparr>res_name = str_lit ''/demo/example/a'', payload = [0x68, 0xFF],
          data_info = Some \<lparr>timestamp = None\<rparr>\<rparr>\<rparr> (str_lit ''Sending Query'') =
     (Inl AttributeError, str_lit ''Sending Query'')"
proof -
  have d: "decode_utf8 [0x68, 0xC3, 0xA9] = Inr [0x68, 0xE9]"
    by (simp add: decode_utf8_def push_def dec2_def cont_def)
  then have good: "valid_utf8 [0x68, 0xC3, 0xA9]"
    by (simp add: valid_utf8_decode)
  have bad: "\<not> valid_utf8 [0x68, 0xFF]"
    by (simp add: invalid_utf8_decode decode_utf8_def push_def)
  have e: "query_callback (\<lambda>c. c < 128) (\<lambda>t :: nat. [48 + t])
       \<lparr>data = \<lparr>res_name = str_lit ''/demo/example/a'', payload = [0x68, 0xC3, 0xA9],
          data_info = None\<rparr>\<rparr> (str_lit ''Sending Query'') =
     (Inl UnicodeEncodeError, str_lit ''Sending Query'')"
    using d
    by (simp add: query_callback_def callback_time_def py_print_cases format_line_def
        format_field_def not_specified_def str_lit_def)
  have a: "query_callback (\<lambda>c. True) (\<lambda>t :: nat. [48 + t])
       \<lparr>data = \<lparr>res_name = str_lit ''/demo/example/a'', payload = [0x68, 0xFF],
          data_info = Some \<lparr>timestamp = None\<rparr>\<rparr>\<rparr> (str_lit ''Sending Query'') =
     (Inl AttributeError, str_lit ''Sending Query'')"
    by (simp add: query_callback_def callback_time_def)
  from good e bad a show ?thesis by blast
qed

end
